theory Spec2Isabelle
  imports Main "HOL-Library.Monad_Syntax"
begin

section \<open>Strings\<close>

text \<open>
  A Go string is a sequence of bytes, here a \<^typ>\<open>string\<close>. Packages \<open>strings\<close> and
  \<open>regexp\<close> read it as UTF-8. The model is exact on filenames of ASCII bytes, where
  every letter the program looks for lives: \<open>ToUpper\<close> and \<open>ToLower\<close> map the 26
  letters. A byte outside ASCII is left as it is and belongs to no character class
  (the library would change the case of some runes there, and under \<open>(?i)\<close> it lets
  the class \<open>[A-Z0-9_]\<close> match the runes U+017F and U+212A as well).
\<close>

definition ToUpper_char :: "char \<Rightarrow> char" where
  "ToUpper_char c =
     (let n = (of_char c :: nat) in if 97 \<le> n \<and> n \<le> 122 then char_of (n - 32) else c)"

definition ToLower_char :: "char \<Rightarrow> char" where
  "ToLower_char c =
     (let n = (of_char c :: nat) in if 65 \<le> n \<and> n \<le> 90 then char_of (n + 32) else c)"

definition ToUpper :: "string \<Rightarrow> string" where
  "ToUpper s = map ToUpper_char s"

definition ToLower :: "string \<Rightarrow> string" where
  "ToLower s = map ToLower_char s"

definition HasPrefix :: "string \<Rightarrow> string \<Rightarrow> bool" where
  "HasPrefix s prefix \<longleftrightarrow> length s \<ge> length prefix \<and> take (length prefix) s = prefix"

definition HasSuffix :: "string \<Rightarrow> string \<Rightarrow> bool" where
  "HasSuffix s suffix \<longleftrightarrow>
     length s \<ge> length suffix \<and> drop (length s - length suffix) s = suffix"

section \<open>Regular expressions\<close>

text \<open>
  The patterns of the program are compiled by package \<open>regexp\<close>, whose matches are
  the ones a backtracking search finds first: among the matches that start leftmost,
  an alternation prefers its left branch and a repetition prefers to take more.
  \<open>matches r s\<close> lists, in that order of preference, what is left of \<open>s\<close> after each
  way of matching \<open>r\<close> at its front. Every pattern of the program carries the flag
  \<open>(?i)\<close>, so a literal and a class match without regard to case.
\<close>

datatype regex =
    Eps
  | Chr char
  | Cls "(char \<times> char) list"
  | Seq regex regex
  | Alt regex regex
  | Opt regex
  | Plus regex

definition in_ranges :: "(char \<times> char) list \<Rightarrow> char \<Rightarrow> bool" where
  "in_ranges rs c \<longleftrightarrow>
     list_ex (\<lambda>(lo, hi). (of_char lo :: nat) \<le> of_char c \<and> (of_char c :: nat) \<le> of_char hi) rs"

definition chr_ok :: "char \<Rightarrow> char \<Rightarrow> bool" where
  "chr_ok x c \<longleftrightarrow> c = x \<or> c = ToUpper_char x \<or> c = ToLower_char x"

definition cls_ok :: "(char \<times> char) list \<Rightarrow> char \<Rightarrow> bool" where
  "cls_ok rs c \<longleftrightarrow> in_ranges rs c \<or> in_ranges rs (ToUpper_char c) \<or> in_ranges rs (ToLower_char c)"

fun step :: "(char \<Rightarrow> bool) \<Rightarrow> string \<Rightarrow> string list" where
  "step ok [] = []"
| "step ok (c # cs) = (if ok c then [cs] else [])"

fun iterate :: "(string \<Rightarrow> string list) \<Rightarrow> nat \<Rightarrow> string \<Rightarrow> string list" where
  "iterate f 0 s = []"
| "iterate f (Suc n) s =
     concat (map (\<lambda>s'. (if length s' < length s then iterate f n s' else []) @ [s']) (f s))"

primrec matches :: "regex \<Rightarrow> string \<Rightarrow> string list" where
  "matches Eps = (\<lambda>s. [s])"
| "matches (Chr x) = step (chr_ok x)"
| "matches (Cls rs) = step (cls_ok rs)"
| "matches (Seq r1 r2) = (\<lambda>s. concat (map (matches r2) (matches r1 s)))"
| "matches (Alt r1 r2) = (\<lambda>s. matches r1 s @ matches r2 s)"
| "matches (Opt r) = (\<lambda>s. matches r s @ [s])"
| "matches (Plus r) = (\<lambda>s. iterate (matches r) (length s) s)"

definition seq :: "regex list \<Rightarrow> regex" where
  "seq rs = foldr Seq rs Eps"

definition lit :: "string \<Rightarrow> regex" where
  "lit s = seq (map Chr s)"

text \<open>
  A pattern of the program has one capturing group: it is kept as the part before the
  group, the group and the part after it, with a flag for a leading \<open>^\<close>.
  \<open>FindStringSubmatch\<close> returns the text of the leftmost match and the text of its
  group, or the empty slice when nothing matches.
\<close>

record pattern =
  anchored :: bool
  before :: regex
  capture :: regex
  after :: regex

definition match_here :: "pattern \<Rightarrow> string \<Rightarrow> string list" where
  "match_here p s =
     (case [(e1, e2, e3). e1 \<leftarrow> matches (before p) s, e2 \<leftarrow> matches (capture p) e1,
                           e3 \<leftarrow> matches (after p) e2] of
        [] \<Rightarrow> []
      | (e1, e2, e3) # _ \<Rightarrow> [take (length s - length e3) s, take (length e1 - length e2) e1])"

fun search :: "pattern \<Rightarrow> string \<Rightarrow> string list" where
  "search p [] = match_here p []"
| "search p (c # cs) = (case match_here p (c # cs) of [] \<Rightarrow> search p cs | m # ms \<Rightarrow> m # ms)"

definition FindStringSubmatch :: "pattern \<Rightarrow> string \<Rightarrow> string list" where
  "FindStringSubmatch p s = (if anchored p then match_here p s else search p s)"

section \<open>Extraction of quantization labels\<close>

record Sibling =
  RFilename :: string

text \<open>Indexing a slice out of range panics; a panic is the value \<open>None\<close>.\<close>

definition index :: "'a list \<Rightarrow> nat \<Rightarrow> 'a option" where
  "index xs i = (if i < length xs then Some (xs ! i) else None)"

definition digit_class :: "(char \<times> char) list" where
  "digit_class = [(CHR ''0'', CHR ''9'')]"

definition word_class :: "(char \<times> char) list" where
  "word_class = [(CHR ''A'', CHR ''Z''), (CHR ''0'', CHR ''9''), (CHR ''_'', CHR ''_'')]"

definition sep_class :: "(char \<times> char) list" where
  "sep_class = [(CHR ''.'', CHR ''.''), (CHR ''_'', CHR ''_''), (CHR ''-'', CHR ''-'')]"

definition split_suffix :: regex where
  "split_suffix = seq [Chr CHR ''-'', Plus (Cls digit_class), lit ''-of-'', Plus (Cls digit_class), lit ''.gguf'']"

definition q_quant :: regex where
  "q_quant = seq [Chr CHR ''Q'', Plus (Cls digit_class), Chr CHR ''_'', Plus (Cls word_class)]"

definition iq_quant :: regex where
  "iq_quant = seq [lit ''IQ'', Plus (Cls digit_class), Chr CHR ''_'', Plus (Cls word_class)]"

definition float_quant :: regex where
  "float_quant = Alt (lit ''F16'') (Alt (lit ''F32'') (lit ''BF16''))"

definition tq_quant :: regex where
  "tq_quant = seq [Opt (lit ''UD-''), lit ''TQ'', Plus (Cls digit_class), Chr CHR ''_'', Plus (Cls digit_class)]"

definition quantPatterns :: "pattern list" where
  "quantPatterns =
    [\<lparr>anchored = False, before = Cls sep_class, capture = q_quant, after = lit ''.gguf''\<rparr>,
     \<lparr>anchored = False, before = Cls sep_class, capture = iq_quant, after = lit ''.gguf''\<rparr>,
     \<lparr>anchored = False, before = Cls sep_class, capture = float_quant, after = lit ''.gguf''\<rparr>,
     \<lparr>anchored = False, before = Cls sep_class, capture = tq_quant, after = lit ''.gguf''\<rparr>,
     \<lparr>anchored = False, before = Cls sep_class, capture = q_quant, after = split_suffix\<rparr>,
     \<lparr>anchored = False, before = Cls sep_class, capture = iq_quant, after = split_suffix\<rparr>,
     \<lparr>anchored = False, before = Cls sep_class, capture = float_quant, after = split_suffix\<rparr>]"

definition dirQuantPattern :: pattern where
  "dirQuantPattern =
     \<lparr>anchored = True, before = Eps, capture = Plus (Cls word_class), after = Chr CHR ''/''\<rparr>"

definition quantPrefixes :: "string list" where
  "quantPrefixes = [''Q'', ''IQ'', ''F16'', ''F32'', ''BF16'', ''TQ'']"

fun any_prefix :: "string \<Rightarrow> string list \<Rightarrow> bool" where
  "any_prefix upper [] = False"
| "any_prefix upper (prefix # rest) = (if HasPrefix upper prefix then True else any_prefix upper rest)"

definition isQuantName :: "string \<Rightarrow> bool" where
  "isQuantName s = (let upper = ToUpper s in any_prefix upper quantPrefixes)"

definition dir_quant :: "string \<Rightarrow> string option" where
  "dir_quant filename =
     (let dirMatch = FindStringSubmatch dirQuantPattern filename in
      if length dirMatch > 1 then
        do { potentialQuant \<leftarrow> index dirMatch 1;
             Some (if isQuantName potentialQuant then potentialQuant else '''') }
      else Some '''')"

fun try_patterns :: "pattern list \<Rightarrow> string \<Rightarrow> string option" where
  "try_patterns [] filename = Some ''''"
| "try_patterns (p # ps) filename =
     (let ms = FindStringSubmatch p filename in
      if length ms > 1 then do { m \<leftarrow> index ms 1; Some (ToUpper m) }
      else try_patterns ps filename)"

definition quant_of :: "string \<Rightarrow> string option" where
  "quant_of filename =
     do { quant \<leftarrow> dir_quant filename;
          if quant = '''' then try_patterns quantPatterns filename else Some quant }"

definition is_seen :: "(string \<rightharpoonup> bool) \<Rightarrow> string \<Rightarrow> bool" where
  "is_seen seen k = (case seen k of None \<Rightarrow> False | Some b \<Rightarrow> b)"

fun extract_loop ::
  "Sibling list \<Rightarrow> (string \<rightharpoonup> bool) \<Rightarrow> string list \<Rightarrow> string list option" where
  "extract_loop [] seen quants = Some quants"
| "extract_loop (s # rest) seen quants =
     (let filename = RFilename s in
      if \<not> HasSuffix (ToLower filename) ''.gguf'' then extract_loop rest seen quants
      else
        do { quant \<leftarrow> quant_of filename;
             if quant \<noteq> '''' \<and> \<not> is_seen seen quant
             then extract_loop rest (seen(quant \<mapsto> True)) (quants @ [quant])
             else extract_loop rest seen quants })"

definition ExtractQuantsFromSiblings :: "Sibling list \<Rightarrow> string list option" where
  "ExtractQuantsFromSiblings siblings = extract_loop siblings Map.empty []"

section \<open>Model card fields\<close>

text \<open>
  The fields \<open>base_model\<close> and \<open>license\<close> of a model card, and the field
  \<open>gated\<close> of a listed model, have the type \<open>interface{}\<close>: a value together with
  its dynamic type. The JSON decoder stores \<open>nil\<close>, a \<open>bool\<close>, a \<open>float64\<close>, a
  \<open>string\<close>, a \<open>[]interface{}\<close> or a \<open>map[string]interface{}\<close> there. \<open>CardData\<close>
  and its fields are exported, so a caller can store a value of any other type: the
  \<open>[]string\<close> that the comment on the fields names is kept apart, every further type is
  \<open>VOther\<close>. The numbers are never looked at, so their type is left open.
\<close>

datatype 'f any_value =
    VNil
  | VBool bool
  | VFloat64 'f
  | VString string
  | VSlice "'f any_value list"
  | VMap "(string \<times> 'f any_value) list"
  | VStrings "string list"
  | VOther

record 'f CardData =
  ModelName :: string
  ModelType :: string
  BaseModel :: "'f any_value"
  License :: "'f any_value"
  QuantizedBy :: string

definition GetBaseModel :: "'f CardData \<Rightarrow> string" where
  "GetBaseModel c =
     (case BaseModel c of
        VString v \<Rightarrow> v
      | VSlice v \<Rightarrow>
          (if length v > 0 then (case v ! 0 of VString s \<Rightarrow> s | _ \<Rightarrow> '''') else '''')
      | _ \<Rightarrow> '''')"

definition GetLicense :: "'f CardData \<Rightarrow> string" where
  "GetLicense c =
     (case License c of
        VString v \<Rightarrow> v
      | VSlice v \<Rightarrow>
          (if length v > 0 then (case v ! 0 of VString s \<Rightarrow> s | _ \<Rightarrow> '''') else '''')
      | _ \<Rightarrow> '''')"

section \<open>Listing models\<close>

text \<open>
  \<open>ListModels\<close> asks the service, decodes the answer into a slice of \<open>apiModel\<close>
  and converts each record. The conversion is the part modelled here; the time stamp
  and the floating-point score are copied as they are, so their types are left open.
\<close>

record ('t, 'f) apiModel =
  ID :: string
  Downloads :: int
  Likes :: int
  LastModified :: 't
  LibraryName :: string
  PipelineTag :: string
  Private :: bool
  Gated :: "'f any_value"
  TrendingScore :: 'f

record ('t, 'f) Model =
  ID :: string
  Author :: string
  Downloads :: int
  Likes :: int
  LastModified :: 't
  LibraryName :: string
  PipelineTag :: string
  Private :: bool
  Gated :: bool
  TrendingScore :: 'f

fun Contains :: "string \<Rightarrow> string \<Rightarrow> bool" where
  "Contains [] substr = (substr = [])"
| "Contains (c # cs) substr = (HasPrefix (c # cs) substr \<or> Contains cs substr)"

text \<open>\<open>SplitN s sep 2\<close> for a separator that is not empty: a cut at its first occurrence.\<close>

fun SplitN2 :: "string \<Rightarrow> string \<Rightarrow> string list" where
  "SplitN2 [] sep = [[]]"
| "SplitN2 (c # cs) sep =
     (if HasPrefix (c # cs) sep then [[], drop (length sep) (c # cs)]
      else (case SplitN2 cs sep of [] \<Rightarrow> [] | a # rest \<Rightarrow> (c # a) # rest))"

definition convert :: "('t, 'f) apiModel \<Rightarrow> ('t, 'f) Model option" where
  "convert am =
     do { author \<leftarrow> (if Contains (apiModel.ID am) ''/''
                      then (let parts = SplitN2 (apiModel.ID am) ''/'' in index parts 0)
                      else Some '''');
          let gated =
            (if apiModel.Gated am \<noteq> VNil then
               (case apiModel.Gated am of
                  VBool v \<Rightarrow> v
                | VString v \<Rightarrow> v \<noteq> '''' \<and> v \<noteq> ''false''
                | _ \<Rightarrow> False)
             else False);
          Some \<lparr>Model.ID = apiModel.ID am, Author = author,
                Downloads = apiModel.Downloads am, Likes = apiModel.Likes am,
                LastModified = apiModel.LastModified am,
                LibraryName = apiModel.LibraryName am,
                PipelineTag = apiModel.PipelineTag am, Private = apiModel.Private am,
                Gated = gated, TrendingScore = apiModel.TrendingScore am\<rparr> }"

fun convert_all :: "('t, 'f) apiModel list \<Rightarrow> ('t, 'f) Model list option" where
  "convert_all [] = Some []"
| "convert_all (am # rest) =
     do { m \<leftarrow> convert am; ms \<leftarrow> convert_all rest; Some (m # ms) }"

section \<open>Facts about characters and strings\<close>









lemma chr_ok_slash: "chr_ok CHR ''/'' c \<longleftrightarrow> c = CHR ''/''"
proof -
  have "ToUpper_char CHR ''/'' = CHR ''/''" "ToLower_char CHR ''/'' = CHR ''/''" by code_simp+
  then show ?thesis by (auto simp: chr_ok_def)
qed


lemma word_chars_ok:
  "\<forall>c\<in>set ''ABCDEFGHIJKLMNOPQRSTUVWXYZabcdefghijklmnopqrstuvwxyz0123456789_''. cls_ok word_class c"
  by code_simp


lemma not_word: "\<not> cls_ok word_class CHR ''/''" "\<not> cls_ok word_class CHR ''.''"
  by code_simp+


lemma word_no_slash: "\<forall>c\<in>set xs. cls_ok word_class c \<Longrightarrow> CHR ''/'' \<notin> set xs"
  using not_word(1) by blast




lemma gguf_no_slash:
  assumes "ToLower ext = ''.gguf''"
  shows "CHR ''/'' \<notin> set ext"
proof
  assume "CHR ''/'' \<in> set ext"
  then have "ToLower_char CHR ''/'' \<in> set (ToLower ext)" by (simp add: ToLower_def)
  moreover have "ToLower_char CHR ''/'' = CHR ''/''" by code_simp
  ultimately show False using assms by simp
qed

lemma split_at_first:
  "xs @ a # u = ys @ a # v \<Longrightarrow> a \<notin> set xs \<Longrightarrow> a \<notin> set ys \<Longrightarrow> xs = ys \<and> u = v"
proof (induction xs arbitrary: ys)
  case Nil
  then show ?case by (cases ys) auto
next
  case (Cons x xs)
  then show ?case by (cases ys) auto
qed

lemma takeWhile_first: "a \<notin> set xs \<Longrightarrow> takeWhile (\<lambda>c. c \<noteq> a) (xs @ a # r) = xs"
  by (induction xs) auto

section \<open>Facts about matching\<close>

text \<open>
  What a pattern can leave over is described as a set: the order of preference matters
  only where two different matches exist, and the lemmas below show where they do not.
\<close>

lemma set_iterate_step:
  "length s \<le> n \<Longrightarrow>
   set (iterate (step ok) n s) = {r. \<exists>xs. xs \<noteq> [] \<and> (\<forall>c\<in>set xs. ok c) \<and> s = xs @ r}"
proof (induction s arbitrary: n)
  case Nil
  then show ?case by (cases n) auto
next
  case (Cons c cs)
  then obtain m where n: "n = Suc m" and m: "length cs \<le> m" by (cases n) auto
  show ?case
  proof (cases "ok c")
    case True
    have "set (iterate (step ok) n (c # cs)) = insert cs (set (iterate (step ok) m cs))"
      using True by (simp add: n)
    also have "\<dots> = insert cs {r. \<exists>xs. xs \<noteq> [] \<and> (\<forall>c\<in>set xs. ok c) \<and> cs = xs @ r}"
      using Cons.IH[OF m] by simp
    also have "\<dots> = {r. \<exists>xs. xs \<noteq> [] \<and> (\<forall>c\<in>set xs. ok c) \<and> c # cs = xs @ r}"
    proof (intro set_eqI iffI)
      fix r assume "r \<in> insert cs {r. \<exists>xs. xs \<noteq> [] \<and> (\<forall>c\<in>set xs. ok c) \<and> cs = xs @ r}"
      then consider "r = cs" | xs where "xs \<noteq> []" "\<forall>c\<in>set xs. ok c" "cs = xs @ r" by auto
      then show "r \<in> {r. \<exists>xs. xs \<noteq> [] \<and> (\<forall>c\<in>set xs. ok c) \<and> c # cs = xs @ r}"
      proof cases
        case 1
        then have "[c] \<noteq> [] \<and> (\<forall>d\<in>set [c]. ok d) \<and> c # cs = [c] @ r" using True by simp
        then show ?thesis by blast
      next
        case 2
        then have "c # xs \<noteq> [] \<and> (\<forall>d\<in>set (c # xs). ok d) \<and> c # cs = (c # xs) @ r"
          using True by simp
        then show ?thesis by blast
      qed
    next
      fix r assume "r \<in> {r. \<exists>xs. xs \<noteq> [] \<and> (\<forall>c\<in>set xs. ok c) \<and> c # cs = xs @ r}"
      then obtain xs where xs: "xs \<noteq> []" "\<forall>c\<in>set xs. ok c" "c # cs = xs @ r" by auto
      then obtain xs' where xs': "xs = c # xs'" "cs = xs' @ r" by (cases xs) auto
      show "r \<in> insert cs {r. \<exists>xs. xs \<noteq> [] \<and> (\<forall>c\<in>set xs. ok c) \<and> cs = xs @ r}"
      proof (cases "xs' = []")
        case True
        then show ?thesis using xs' by simp
      next
        case False
        then show ?thesis using xs' xs(2) by auto
      qed
    qed
    finally show ?thesis .
  next
    case False
    have "set (iterate (step ok) n (c # cs)) = {}" using False by (simp add: n)
    moreover have "{r. \<exists>xs. xs \<noteq> [] \<and> (\<forall>c\<in>set xs. ok c) \<and> c # cs = xs @ r} = {}"
    proof -
      have "\<not> (xs \<noteq> [] \<and> (\<forall>c\<in>set xs. ok c) \<and> c # cs = xs @ r)" for xs r
        using False by (cases xs) auto
      then show ?thesis by blast
    qed
    ultimately show ?thesis by simp
  qed
qed

lemma set_matches_plus_cls:
  "set (matches (Plus (Cls rs)) s) =
     {r. \<exists>xs. xs \<noteq> [] \<and> (\<forall>c\<in>set xs. cls_ok rs c) \<and> s = xs @ r}"
  by (simp add: set_iterate_step)

lemma set_matches_chr:
  "set (matches (Chr x) s) = {r. \<exists>c. chr_ok x c \<and> s = c # r}"
  by (cases s) auto

lemma set_matches_cls:
  "set (matches (Cls rs) s) = {r. \<exists>c. cls_ok rs c \<and> s = c # r}"
  by (cases s) auto





lemma match_here_Nil:
  "match_here p s = [] \<longleftrightarrow>
     (\<forall>e1\<in>set (matches (before p) s). \<forall>e2\<in>set (matches (capture p) e1).
        matches (after p) e2 = [])"
proof -
  define ms where "ms = [(e1, e2, e3). e1 \<leftarrow> matches (before p) s,
     e2 \<leftarrow> matches (capture p) e1, e3 \<leftarrow> matches (after p) e2]"
  have "match_here p s = [] \<longleftrightarrow> ms = []"
    unfolding match_here_def ms_def[symmetric] by (cases ms) auto
  also have "\<dots> \<longleftrightarrow> set ms = {}" by (simp only: set_empty)
  also have "\<dots> \<longleftrightarrow> (\<forall>e1\<in>set (matches (before p) s). \<forall>e2\<in>set (matches (capture p) e1).
        set (matches (after p) e2) = {})"
    unfolding ms_def by auto
  finally show ?thesis by simp
qed

lemma match_here_Cons:
  assumes "match_here p s \<noteq> []"
  obtains e1 e2 e3 where "e1 \<in> set (matches (before p) s)"
    and "e2 \<in> set (matches (capture p) e1)" and "e3 \<in> set (matches (after p) e2)"
    and "match_here p s = [take (length s - length e3) s, take (length e1 - length e2) e1]"
proof -
  let ?ms = "[(e1, e2, e3). e1 \<leftarrow> matches (before p) s, e2 \<leftarrow> matches (capture p) e1,
                           e3 \<leftarrow> matches (after p) e2]"
  from assms obtain e1 e2 e3 rest where ms: "?ms = (e1, e2, e3) # rest"
    by (auto simp: match_here_def split: list.splits)
  then have "(e1, e2, e3) \<in> set ?ms" by simp
  then have "e1 \<in> set (matches (before p) s)" "e2 \<in> set (matches (capture p) e1)"
    "e3 \<in> set (matches (after p) e2)" by auto
  moreover have "match_here p s = [take (length s - length e3) s, take (length e1 - length e2) e1]"
    using ms by (simp add: match_here_def)
  ultimately show ?thesis using that by blast
qed

lemma match_here_unique:
  assumes ex: "e1 \<in> set (matches (before p) s)" "e2 \<in> set (matches (capture p) e1)"
      "e3 \<in> set (matches (after p) e2)"
    and un: "\<And>e1 e2 e3. e1 \<in> set (matches (before p) s) \<Longrightarrow> e2 \<in> set (matches (capture p) e1)
      \<Longrightarrow> e3 \<in> set (matches (after p) e2)
      \<Longrightarrow> take (length s - length e3) s = w \<and> take (length e1 - length e2) e1 = c"
  shows "match_here p s = [w, c]"
proof -
  have "matches (after p) e2 \<noteq> []" using ex(3) by auto
  then have "match_here p s \<noteq> []" using ex(1,2) by (auto simp: match_here_Nil)
  then show ?thesis by (rule match_here_Cons) (use un in auto)
qed



subsection \<open>The directory pattern\<close>

lemma dir_match_exact:
  assumes "xs \<noteq> []" and "\<forall>c\<in>set xs. cls_ok word_class c"
  shows "match_here dirQuantPattern (xs @ CHR ''/'' # r) = [xs @ ''/'', xs]"
proof (rule match_here_unique)
  let ?f = "xs @ CHR ''/'' # r"
  show "?f \<in> set (matches (before dirQuantPattern) ?f)"
    by (simp add: dirQuantPattern_def)
  show "CHR ''/'' # r \<in> set (matches (capture dirQuantPattern) ?f)"
    unfolding dirQuantPattern_def pattern.simps set_matches_plus_cls using assms by blast
  show "r \<in> set (matches (after dirQuantPattern) (CHR ''/'' # r))"
    by (simp add: dirQuantPattern_def chr_ok_slash)
next
  fix e1 e2 e3
  let ?f = "xs @ CHR ''/'' # r"
  assume "e1 \<in> set (matches (before dirQuantPattern) ?f)"
  then have e1: "e1 = ?f" by (simp add: dirQuantPattern_def)
  assume "e2 \<in> set (matches (capture dirQuantPattern) e1)"
  then obtain ys where ys: "ys \<noteq> []" "\<forall>c\<in>set ys. cls_ok word_class c" "?f = ys @ e2"
    unfolding dirQuantPattern_def pattern.simps set_matches_plus_cls e1 by blast
  assume "e3 \<in> set (matches (after dirQuantPattern) e2)"
  then have e2: "e2 = CHR ''/'' # e3"
    unfolding dirQuantPattern_def pattern.simps set_matches_chr by (auto simp: chr_ok_slash)
  have "xs = ys \<and> r = e3"
    using ys(3) unfolding e2
    by (rule split_at_first) (use assms(2) ys(2) word_no_slash in auto)
  then show "take (length ?f - length e3) ?f = xs @ ''/'' \<and> take (length e1 - length e2) e1 = xs"
    by (simp add: e1 e2)
qed

lemma dir_match_cases:
  assumes "match_here dirQuantPattern f \<noteq> []"
  obtains xs r where "f = xs @ CHR ''/'' # r" and "xs \<noteq> []"
    and "\<forall>c\<in>set xs. cls_ok word_class c"
proof -
  from assms obtain e1 e2 e3 where "e1 \<in> set (matches (before dirQuantPattern) f)"
    and m2: "e2 \<in> set (matches (capture dirQuantPattern) e1)"
    and m3: "e3 \<in> set (matches (after dirQuantPattern) e2)"
    by (rule match_here_Cons)
  then have e1: "e1 = f" by (simp add: dirQuantPattern_def)
  from m2 obtain ys where ys: "ys \<noteq> []" "\<forall>c\<in>set ys. cls_ok word_class c" "f = ys @ e2"
    unfolding dirQuantPattern_def pattern.simps set_matches_plus_cls e1 by blast
  from m3 have "e2 = CHR ''/'' # e3"
    unfolding dirQuantPattern_def pattern.simps set_matches_chr by (auto simp: chr_ok_slash)
  with ys show ?thesis using that by blast
qed

lemma dir_quant_segment:
  assumes "xs \<noteq> []" and "\<forall>c\<in>set xs. cls_ok word_class c"
  shows "dir_quant (xs @ CHR ''/'' # r) = Some (if isQuantName xs then xs else '''')"
  using dir_match_exact[OF assms, of r]
  by (simp add: dir_quant_def FindStringSubmatch_def dirQuantPattern_def index_def)

lemma dir_quant_none:
  assumes "CHR ''/'' \<notin> set f \<or> \<not> isQuantName (takeWhile (\<lambda>c. c \<noteq> CHR ''/'') f)"
  shows "dir_quant f = Some ''''"
proof (cases "match_here dirQuantPattern f = []")
  case True
  then show ?thesis
    by (simp add: dir_quant_def FindStringSubmatch_def dirQuantPattern_def)
next
  case False
  then obtain xs r where f: "f = xs @ CHR ''/'' # r" and xs: "xs \<noteq> []"
    "\<forall>c\<in>set xs. cls_ok word_class c" by (rule dir_match_cases)
  have "takeWhile (\<lambda>c. c \<noteq> CHR ''/'') f = xs"
    unfolding f using word_no_slash[OF xs(2)] by (rule takeWhile_first)
  with assms f have "\<not> isQuantName xs" by auto
  then show ?thesis unfolding f using dir_quant_segment[OF xs] by simp
qed

lemma isQuantName_nonempty: "isQuantName s \<Longrightarrow> s \<noteq> []"
proof
  assume "isQuantName s" "s = []"
  moreover have "\<not> isQuantName []" by code_simp
  ultimately show False by simp
qed

subsection \<open>The first filename pattern\<close>




subsection \<open>The loop\<close>

lemma dir_quant_total: "\<exists>q. dir_quant f = Some q"
  by (simp add: dir_quant_def index_def Let_def)

lemma try_patterns_total: "\<exists>q. try_patterns ps f = Some q"
  by (induction ps) (simp_all add: index_def Let_def)

lemma quant_of_total: "\<exists>q. quant_of f = Some q"
proof -
  obtain d where d: "dir_quant f = Some d" using dir_quant_total by blast
  show ?thesis using try_patterns_total[of quantPatterns f] by (simp add: quant_of_def d)
qed

lemma extract_loop_total: "\<exists>qs. extract_loop siblings seen quants = Some qs"
proof (induction siblings arbitrary: seen quants)
  case Nil
  then show ?case by simp
next
  case (Cons s siblings)
  obtain q where q: "quant_of (RFilename s) = Some q" using quant_of_total by blast
  show ?case using Cons.IH by (simp add: q Let_def)
qed

lemma extract_loop_filter:
  "extract_loop (filter (\<lambda>s. HasSuffix (ToLower (RFilename s)) ''.gguf'') siblings) seen quants
     = extract_loop siblings seen quants"
proof (induction siblings arbitrary: seen quants)
  case Nil
  then show ?case by simp
next
  case (Cons s siblings)
  obtain q where q: "quant_of (RFilename s) = Some q" using quant_of_total by blast
  have "extract_loop (filter (\<lambda>s. HasSuffix (ToLower (RFilename s)) ''.gguf'') siblings) seen' quants'
     = extract_loop siblings seen' quants'" for seen' quants'
    by (rule Cons.IH)
  then show ?case by (simp add: q Let_def)
qed

lemma extract_loop_no_gguf:
  "\<forall>s\<in>set siblings. \<not> HasSuffix (ToLower (RFilename s)) ''.gguf'' \<Longrightarrow>
   extract_loop siblings seen quants = Some quants"
  by (induction siblings arbitrary: seen quants) (simp_all add: Let_def)

lemma extract_loop_no_label:
  "\<forall>s\<in>set siblings. quant_of (RFilename s) = Some '''' \<Longrightarrow>
   extract_loop siblings seen quants = Some quants"
  by (induction siblings arbitrary: seen quants) (simp_all add: Let_def)

lemma extract_single:
  assumes "HasSuffix (ToLower f) ''.gguf''" and "quant_of f = Some q" and "q \<noteq> []"
  shows "ExtractQuantsFromSiblings [\<lparr>RFilename = f\<rparr>] = Some [q]"
  using assms by (simp add: ExtractQuantsFromSiblings_def is_seen_def)

subsection \<open>The accessors of the model card\<close>

text \<open>
  On every value the accessors return the string itself, the first element of a
  \<open>[]interface{}\<close> that starts with a string, and the empty string otherwise.
\<close>

lemma card_accessors_cases:
  "(BaseModel c = VString s \<longrightarrow> GetBaseModel c = s) \<and>
   (BaseModel c = VSlice (VString s # rest) \<longrightarrow> GetBaseModel c = s) \<and>
   ((\<forall>v. BaseModel c \<noteq> VString v) \<and> (\<forall>v vs. BaseModel c \<noteq> VSlice (VString v # vs))
      \<longrightarrow> GetBaseModel c = '''') \<and>
   (License c = VString s \<longrightarrow> GetLicense c = s) \<and>
   (License c = VSlice (VString s # rest) \<longrightarrow> GetLicense c = s) \<and>
   ((\<forall>v. License c \<noteq> VString v) \<and> (\<forall>v vs. License c \<noteq> VSlice (VString v # vs))
      \<longrightarrow> GetLicense c = '''')"
proof -
  have first: "(case v ! 0 of VString s \<Rightarrow> s | _ \<Rightarrow> '''') = ''''"
    if "\<forall>s vs. v \<noteq> VString s # vs" "0 < length v" for v :: "'a any_value list"
    using that by (cases v) (auto split: any_value.splits)
  show ?thesis
    by (auto simp: GetBaseModel_def GetLicense_def first split: any_value.splits)
qed

subsection \<open>The conversion of listed models\<close>

lemma SplitN2_nonempty: "SplitN2 s sp \<noteq> []"
  by (induction s) (auto split: list.splits)

lemma convert_total:
  "\<exists>m. convert am = Some m \<and>
     (Model.Gated m \<longleftrightarrow> apiModel.Gated am = VBool True \<or>
        (\<exists>v. apiModel.Gated am = VString v \<and> v \<noteq> '''' \<and> v \<noteq> ''false''))"
proof -
  have "\<exists>a. index (SplitN2 (apiModel.ID am) ''/'') 0 = Some a"
    using SplitN2_nonempty[of "apiModel.ID am" "''/''"] by (simp add: index_def)
  then obtain a where a: "index (SplitN2 (apiModel.ID am) ''/'') 0 = Some a" by blast
  show ?thesis
    by (cases "apiModel.Gated am") (auto simp: convert_def a Let_def)
qed

section \<open>Properties of the extraction\<close>

subsection \<open>Case of the labels\<close>

text \<open>
  Claim C1 says that every returned label is upper-case, labels taken from a directory
  included. The filename patterns upper-case what they capture, the directory check
  stores the directory name as it is written: the lower-case directory \<open>bf16\<close> gives
  the label \<open>bf16\<close>, which is not its own upper-casing, while the same marker in a
  filename gives \<open>BF16\<close>.
\<close>

theorem directory_label_keeps_case:
  "ExtractQuantsFromSiblings [\<lparr>RFilename = ''bf16/model.gguf''\<rparr>] = Some [''bf16'']
   \<and> ToUpper ''bf16'' \<noteq> ''bf16''
   \<and> ExtractQuantsFromSiblings [\<lparr>RFilename = ''model-bf16.gguf''\<rparr>] = Some [''BF16'']"
  by code_simp

text \<open>
  Claim C2 says that no two returned labels are equal after upper-casing and that only
  the first occurrence of a label is kept. A label is looked up in \<open>seen\<close> as it is
  stored, so the directory \<open>q4_k_m\<close> and the filename marker \<open>Q4_K_M\<close> are both
  returned, although they are equal after upper-casing.
\<close>

theorem labels_differing_in_case:
  "ExtractQuantsFromSiblings
     [\<lparr>RFilename = ''q4_k_m/model.gguf''\<rparr>, \<lparr>RFilename = ''model-Q4_K_M.gguf''\<rparr>]
   = Some [''q4_k_m'', ''Q4_K_M''] \<and> ToUpper ''q4_k_m'' = ToUpper ''Q4_K_M''"
  by code_simp

subsection \<open>The marker before the extension\<close>




subsection \<open>The directory heuristic\<close>

text \<open>
  Claim C4 says that a leading path segment that begins, upper-cased, with a quant
  prefix is the label whatever other characters it has. The directory pattern is
  \<open>^([A-Z0-9_]+)/\<close>: a segment with any other character, here a hyphen, is not captured,
  and the filename patterns are tried.
\<close>

theorem hyphenated_directory_counterexample:
  "HasSuffix (ToLower ''Q4_K_M-GGUF/model-Q8_0.gguf'') ''.gguf'' \<and>
   isQuantName (takeWhile (\<lambda>c. c \<noteq> CHR ''/'') ''Q4_K_M-GGUF/model-Q8_0.gguf'') \<and>
   dir_quant ''Q4_K_M-GGUF/model-Q8_0.gguf'' = Some '''' \<and>
   ExtractQuantsFromSiblings [\<lparr>RFilename = ''Q4_K_M-GGUF/model-Q8_0.gguf''\<rparr>] = Some [''Q8_0'']"
  by code_simp

text \<open>
  Claim C4 as amended: for a filename ending in \<open>.gguf\<close> in any case whose leading path
  segment is made of letters, digits and underscores only and begins, upper-cased, with
  one of the prefixes \<open>Q\<close>, \<open>IQ\<close>, \<open>F16\<close>, \<open>F32\<close>, \<open>BF16\<close>, \<open>TQ\<close>, the directory
  check returns that segment as it is written, so no filename pattern is tried, and the
  segment is the label.
\<close>

theorem quant_directory_is_label:
  assumes seg: "set seg \<subseteq> set ''ABCDEFGHIJKLMNOPQRSTUVWXYZabcdefghijklmnopqrstuvwxyz0123456789_''"
    and quant: "isQuantName seg"
    and gguf: "HasSuffix (ToLower (seg @ ''/'' @ rest)) ''.gguf''"
  shows "dir_quant (seg @ ''/'' @ rest) = Some seg
    \<and> quant_of (seg @ ''/'' @ rest) = Some seg
    \<and> ExtractQuantsFromSiblings [\<lparr>RFilename = seg @ ''/'' @ rest\<rparr>] = Some [seg]"
proof -
  have ne: "seg \<noteq> []" using quant by (rule isQuantName_nonempty)
  have ok: "\<forall>c\<in>set seg. cls_ok word_class c" using seg word_chars_ok by blast
  have d: "dir_quant (seg @ ''/'' @ rest) = Some seg"
    using dir_quant_segment[OF ne ok, of rest] quant by simp
  then have q: "quant_of (seg @ ''/'' @ rest) = Some seg"
    using ne by (simp add: quant_of_def)
  show ?thesis using d q extract_single[OF gguf q ne] by simp
qed

theorem quant_directory_is_label_witness:
  "ExtractQuantsFromSiblings [\<lparr>RFilename = ''IQ4_XS/model-00001-of-00002.gguf''\<rparr>]
     = Some [''IQ4_XS'']"
proof -
  have q: "isQuantName ''IQ4_XS''" by code_simp
  have g: "HasSuffix (ToLower (''IQ4_XS'' @ ''/'' @ ''model-00001-of-00002.gguf'')) ''.gguf''"
    by code_simp
  show ?thesis
    using quant_directory_is_label[of "''IQ4_XS''" "''model-00001-of-00002.gguf''", OF _ q g]
    by simp
qed

subsection \<open>Worked examples\<close>

text \<open>
  Claim C5. On the single filename \<open>BF16/model-Q4_K_M-00001-of-00005.gguf\<close> the result is
  the one label \<open>BF16\<close>: the quant-named directory wins over the Q-pattern of the
  filename itself.
\<close>

theorem directory_precedence_example:
  "ExtractQuantsFromSiblings [\<lparr>RFilename = ''BF16/model-Q4_K_M-00001-of-00005.gguf''\<rparr>]
     = Some [''BF16'']"
  by code_simp

text \<open>
  Claim C7. On \<open>readme.md\<close>, \<open>model-Q4_K_M.gguf\<close>, \<open>model-Q8_0.gguf\<close> the result is
  exactly \<open>Q4_K_M\<close>, \<open>Q8_0\<close>, in the order first seen; the entry that is no
  \<open>.gguf\<close> file is ignored.
\<close>

theorem mixed_list_example:
  "ExtractQuantsFromSiblings
     [\<lparr>RFilename = ''readme.md''\<rparr>, \<lparr>RFilename = ''model-Q4_K_M.gguf''\<rparr>,
      \<lparr>RFilename = ''model-Q8_0.gguf''\<rparr>]
   = Some [''Q4_K_M'', ''Q8_0'']"
  by code_simp

subsection \<open>Files of another format\<close>

text \<open>
  Claim C6. The result on a list of filenames is the result on its sublist of the names
  that end in \<open>.gguf\<close> in any case: a name without that suffix contributes nothing,
  whatever it contains.
\<close>

theorem non_gguf_ignored:
  "ExtractQuantsFromSiblings siblings =
     ExtractQuantsFromSiblings
       (filter (\<lambda>s. HasSuffix (ToLower (RFilename s)) ''.gguf'') siblings)"
  by (simp add: ExtractQuantsFromSiblings_def extract_loop_filter)

subsection \<open>Totality\<close>

text \<open>
  Claim C8. The extraction never fails: on every list of filenames it returns a list of
  labels (no index is read out of range), and it returns the empty list when no name
  ends in \<open>.gguf\<close> and when no name has a recognizable marker.
\<close>

theorem extract_total:
  "(\<exists>quants. ExtractQuantsFromSiblings siblings = Some quants) \<and>
   ((\<forall>s\<in>set siblings. \<not> HasSuffix (ToLower (RFilename s)) ''.gguf'') \<longrightarrow>
      ExtractQuantsFromSiblings siblings = Some []) \<and>
   ((\<forall>s\<in>set siblings. quant_of (RFilename s) = Some '''') \<longrightarrow>
      ExtractQuantsFromSiblings siblings = Some [])"
  unfolding ExtractQuantsFromSiblings_def
  using extract_loop_total extract_loop_no_gguf extract_loop_no_label by blast

theorem extract_total_witness:
  "ExtractQuantsFromSiblings [\<lparr>RFilename = ''README.md''\<rparr>, \<lparr>RFilename = ''config.json''\<rparr>]
     = Some [] \<and>
   ExtractQuantsFromSiblings [\<lparr>RFilename = ''model.gguf''\<rparr>, \<lparr>RFilename = ''tokenizer.gguf''\<rparr>]
     = Some []"
proof -
  have a: "\<forall>s\<in>set [\<lparr>RFilename = ''README.md''\<rparr>, \<lparr>RFilename = ''config.json''\<rparr>].
      \<not> HasSuffix (ToLower (RFilename s)) ''.gguf''"
    by code_simp
  have b: "\<forall>s\<in>set [\<lparr>RFilename = ''model.gguf''\<rparr>, \<lparr>RFilename = ''tokenizer.gguf''\<rparr>].
      quant_of (RFilename s) = Some ''''"
    by code_simp
  from a b show ?thesis
    using extract_total[of "[\<lparr>RFilename = ''README.md''\<rparr>, \<lparr>RFilename = ''config.json''\<rparr>]"]
      extract_total[of "[\<lparr>RFilename = ''model.gguf''\<rparr>, \<lparr>RFilename = ''tokenizer.gguf''\<rparr>]"]
    by blast
qed

section \<open>Properties of the model card and of the listing\<close>

text \<open>
  Claim C9 says that \<open>GetBaseModel\<close> and \<open>GetLicense\<close> return the field when it is a
  string, the first element when it is a non-empty list whose first element is a string,
  and the empty string otherwise. The type switch has the cases \<open>string\<close> and
  \<open>[]interface{}\<close> only: on a field that holds the \<open>[]string\<close> with the elements
  \<open>a\<close>, \<open>b\<close> both accessors return the empty string, while on the
  \<open>[]interface{}\<close> with the same elements they return \<open>a\<close>.
\<close>

theorem string_slice_field_gives_empty:
  "GetBaseModel (\<lparr>ModelName = ''m'', ModelType = ''llama'', BaseModel = VStrings [''a'', ''b''],
       License = VStrings [''a'', ''b''], QuantizedBy = ''x''\<rparr> :: unit CardData) = '''' \<and>
   GetLicense (\<lparr>ModelName = ''m'', ModelType = ''llama'', BaseModel = VStrings [''a'', ''b''],
       License = VStrings [''a'', ''b''], QuantizedBy = ''x''\<rparr> :: unit CardData) = '''' \<and>
   GetBaseModel (\<lparr>ModelName = ''m'', ModelType = ''llama'',
       BaseModel = VSlice [VString ''a'', VString ''b''],
       License = VSlice [VString ''a'', VString ''b''], QuantizedBy = ''x''\<rparr> :: unit CardData) = ''a'' \<and>
   GetLicense (\<lparr>ModelName = ''m'', ModelType = ''llama'',
       BaseModel = VSlice [VString ''a'', VString ''b''],
       License = VSlice [VString ''a'', VString ''b''], QuantizedBy = ''x''\<rparr> :: unit CardData) = ''a''"
  by (simp add: GetBaseModel_def GetLicense_def)

text \<open>
  Claim C10. The conversion of the listed records succeeds, keeps their number and
  order, and sets \<open>Gated\<close> of a model exactly when the raw value is the boolean
  \<open>true\<close> or a string that is neither empty nor \<open>false\<close>.
\<close>

theorem gated_conversion:
  "\<exists>ms. convert_all ams = Some ms \<and> length ms = length ams \<and>
     (\<forall>i<length ams. Model.Gated (ms ! i) \<longleftrightarrow>
        apiModel.Gated (ams ! i) = VBool True \<or>
        (\<exists>v. apiModel.Gated (ams ! i) = VString v \<and> v \<noteq> '''' \<and> v \<noteq> ''false''))"
proof (induction ams)
  case Nil
  then show ?case by simp
next
  case (Cons am ams)
  then obtain ms where ms: "convert_all ams = Some ms" "length ms = length ams"
    "\<forall>i<length ams. Model.Gated (ms ! i) \<longleftrightarrow>
        apiModel.Gated (ams ! i) = VBool True \<or>
        (\<exists>v. apiModel.Gated (ams ! i) = VString v \<and> v \<noteq> '''' \<and> v \<noteq> ''false'')"
    by blast
  obtain m where m: "convert am = Some m"
    "Model.Gated m \<longleftrightarrow> apiModel.Gated am = VBool True \<or>
        (\<exists>v. apiModel.Gated am = VString v \<and> v \<noteq> '''' \<and> v \<noteq> ''false'')"
    using convert_total by blast
  have "convert_all (am # ams) = Some (m # ms)" by (simp add: m(1) ms(1))
  moreover have "length (m # ms) = length (am # ams)" by (simp add: ms(2))
  moreover have "\<forall>i<length (am # ams). Model.Gated ((m # ms) ! i) \<longleftrightarrow>
        apiModel.Gated ((am # ams) ! i) = VBool True \<or>
        (\<exists>v. apiModel.Gated ((am # ams) ! i) = VString v \<and> v \<noteq> '''' \<and> v \<noteq> ''false'')"
  proof (intro allI impI)
    fix i assume "i < length (am # ams)"
    then show "Model.Gated ((m # ms) ! i) \<longleftrightarrow>
        apiModel.Gated ((am # ams) ! i) = VBool True \<or>
        (\<exists>v. apiModel.Gated ((am # ams) ! i) = VString v \<and> v \<noteq> '''' \<and> v \<noteq> ''false'')"
      using m(2) ms(3) by (cases i) auto
  qed
  ultimately show ?case by blast
qed

theorem gated_conversion_witness:
  "\<exists>ms. convert_all
      [\<lparr>apiModel.ID = ''meta-llama/Llama-2-7b'', Downloads = 10, Likes = 2, LastModified = (),
         LibraryName = ''transformers'', PipelineTag = ''text-generation'', Private = False,
         Gated = VString ''manual'', TrendingScore = ()\<rparr>,
       \<lparr>apiModel.ID = ''gpt2'', Downloads = 7, Likes = 1, LastModified = (),
         LibraryName = ''transformers'', PipelineTag = ''text-generation'', Private = False,
         Gated = VBool False, TrendingScore = ()\<rparr>] = Some ms
     \<and> Model.Gated (ms ! 0) \<and> \<not> Model.Gated (ms ! 1)"
proof -
  let ?ams = "[\<lparr>apiModel.ID = ''meta-llama/Llama-2-7b'', Downloads = 10, Likes = 2, LastModified = (),
         LibraryName = ''transformers'', PipelineTag = ''text-generation'', Private = False,
         Gated = VString ''manual'', TrendingScore = ()\<rparr>,
       \<lparr>apiModel.ID = ''gpt2'', Downloads = 7, Likes = 1, LastModified = (),
         LibraryName = ''transformers'', PipelineTag = ''text-generation'', Private = False,
         Gated = VBool False, TrendingScore = ()\<rparr>] :: (unit, unit) apiModel list"
  from gated_conversion[of ?ams] obtain ms where ms: "convert_all ?ams = Some ms"
    and g: "\<forall>i<length ?ams. Model.Gated (ms ! i) \<longleftrightarrow>
        apiModel.Gated (?ams ! i) = VBool True \<or>
        (\<exists>v. apiModel.Gated (?ams ! i) = VString v \<and> v \<noteq> '''' \<and> v \<noteq> ''false'')"
    by blast
  from g have "Model.Gated (ms ! 0)" by simp
  moreover from g have "\<not> Model.Gated (ms ! 1)" by simp
  ultimately show ?thesis using ms by blast
qed

end
